theory Spec2Isabelle
  imports Complex_Main
begin

section \<open>Data model of \<^verbatim>\<open>abstractions.py\<close>\<close>

text \<open>
  Python's \<^verbatim>\<open>float\<close> is modelled by \<^typ>\<open>real\<close>: arithmetic is exact, and the two
  values a float has beyond the reals are written out where the code produces them
  (\<^verbatim>\<open>float('inf')\<close> is a constructor of its own, a complex power is a complex
  number). Rounding, overflow and not-a-number inputs are outside the model. Python's
  \<^verbatim>\<open>int\<close> is \<^typ>\<open>int\<close>. Every exception the modelled code can raise is a value of
  \<open>pyerr\<close>, and a function that can raise returns \<open>pyerr + 'a\<close>.
\<close>

datatype FaultType =
  RETRY | DRIFT | BACKPRESSURE | NODE_PARTITION | LIVELOCK | CRASH | TIMEOUT | REPLAY

record Component =
  name :: string
  cpu_percent :: real
  memory_gb :: real
  latency_ms :: real
  throughput_mbps :: real
  reliability_percent :: real
  requests_per_sec :: int
  dependency :: "string option"
  fault_events :: "FaultType list"




definition WebGateway :: Component where
  "WebGateway =
     \<lparr>name = ''WebGateway'', cpu_percent = 52, memory_gb = 3.7, latency_ms = 38,
      throughput_mbps = 690, reliability_percent = 94.7, requests_per_sec = 215,
      dependency = Some ''EdgeOrchestrator'', fault_events = [LIVELOCK]\<rparr>"

definition CloudInference :: Component where
  "CloudInference =
     \<lparr>name = ''CloudInference'', cpu_percent = 74, memory_gb = 9.3, latency_ms = 44,
      throughput_mbps = 1150, reliability_percent = 92.4, requests_per_sec = 275,
      dependency = Some ''WebGateway'', fault_events = [CRASH, TIMEOUT, REPLAY]\<rparr>"


datatype pyerr =
  KeyError | ValueError | ZeroDivisionError | RecursionError | TypeError | OverflowError

section \<open>Double-precision floats\<close>

text \<open>
  A Python float is an IEEE 754 binary64 number. The finite ones are the reals
  \<open>m * 2 powi e\<close> with an integer \<open>m\<close> of magnitude below \<open>2 ^ 53\<close> and
  \<open>- 1074 \<le> e \<le> 971\<close>. \<open>round_double\<close> rounds a real to the nearest of them, a tie
  to the one with the even \<open>m\<close>: \<open>ulp_exp a\<close> is the exponent \<open>e\<close> at the magnitude
  \<open>a\<close>, found by going down the binades from the largest, and \<open>round_half_even\<close>
  rounds the quotient to an integer.
\<close>

definition round_half_even :: "real \<Rightarrow> int" where
  "round_half_even x =
     (let f = \<lfloor>x\<rfloor>; d = x - of_int f
      in if d < 1 / 2 then f else if d > 1 / 2 then f + 1 else if even f then f else f + 1)"

fun ulp_search :: "nat \<Rightarrow> real \<Rightarrow> int" where
  "ulp_search 0 a = - 1074"
| "ulp_search (Suc k) a =
     (if 2 powi (int k - 1021) \<le> a then int k - 1073 else ulp_search k a)"

definition ulp_exp :: "real \<Rightarrow> int" where
  "ulp_exp a = ulp_search 2045 a"

definition round_double :: "real \<Rightarrow> real" where
  "round_double x =
     of_int (round_half_even (x / 2 powi ulp_exp \<bar>x\<bar>)) * 2 powi ulp_exp \<bar>x\<bar>"

text \<open>
  A float value: a finite double \<open>F64 x\<close>, an infinity or a NaN. The two zeros are
  one value here; they compare equal, and the program has no operation that tells them
  apart. A rounded result of magnitude \<open>2 powi 1024\<close> or more is an infinity.
  \<open>py_float\<close> is the float that a decimal literal, or the decimal value given for a
  field, denotes.
\<close>

datatype f64 = F64 real | PosInf | NegInf | NaN

definition round_f64 :: "real \<Rightarrow> f64" where
  "round_f64 x =
     (let y = round_double x
      in if 2 powi 1024 \<le> y then PosInf else if y \<le> - (2 powi 1024) then NegInf else F64 y)"

definition py_float :: "real \<Rightarrow> f64" where
  "py_float x = round_f64 x"

text \<open>
  The arithmetic of Python floats: each operation returns the rounded exact result, with
  the IEEE rules for infinities and NaN, except that a division by zero raises
  \<^verbatim>\<open>ZeroDivisionError\<close> whatever the dividend. A comparison with a NaN is false.
\<close>

fun fl_neg:: "f64 \<Rightarrow> f64" where
  "fl_neg (F64 x) = F64 (- x)"
| "fl_neg PosInf = NegInf"
| "fl_neg NegInf = PosInf"
| "fl_neg NaN = NaN"

fun fl_add :: "f64 \<Rightarrow> f64 \<Rightarrow> f64" where
  "fl_add (F64 x) (F64 y) = round_f64 (x + y)"
| "fl_add NaN b = NaN"
| "fl_add a NaN = NaN"
| "fl_add PosInf NegInf = NaN"
| "fl_add NegInf PosInf = NaN"
| "fl_add PosInf b = PosInf"
| "fl_add NegInf b = NegInf"
| "fl_add a PosInf = PosInf"
| "fl_add a NegInf = NegInf"

definition fl_sub :: "f64 \<Rightarrow> f64 \<Rightarrow> f64" where
  "fl_sub a b = fl_add a (fl_neg b)"

fun fl_sign :: "f64 \<Rightarrow> real" where
  "fl_sign (F64 x) = sgn x"
| "fl_sign PosInf = 1"
| "fl_sign NegInf = - 1"
| "fl_sign NaN = 0"

fun fl_mul :: "f64 \<Rightarrow> f64 \<Rightarrow> f64" where
  "fl_mul (F64 x) (F64 y) = round_f64 (x * y)"
| "fl_mul NaN b = NaN"
| "fl_mul a NaN = NaN"
| "fl_mul a b =
     (if fl_sign a * fl_sign b = 0 then NaN
      else if fl_sign a * fl_sign b > 0 then PosInf else NegInf)"

fun fl_div :: "f64 \<Rightarrow> f64 \<Rightarrow> pyerr + f64" where
  "fl_div a (F64 y) =
     (if y = 0 then Inl ZeroDivisionError
      else case a of
             F64 x \<Rightarrow> Inr (round_f64 (x / y))
           | NaN \<Rightarrow> Inr NaN
           | _ \<Rightarrow> Inr (if fl_sign a * sgn y > 0 then PosInf else NegInf))"
| "fl_div a NaN = Inr NaN"
| "fl_div (F64 x) b = Inr (F64 0)"
| "fl_div a b = Inr NaN"

fun f64_less :: "f64 \<Rightarrow> f64 \<Rightarrow> bool" where
  "f64_less (F64 x) (F64 y) = (x < y)"
| "f64_less NaN b = False"
| "f64_less a NaN = False"
| "f64_less a NegInf = False"
| "f64_less PosInf b = False"
| "f64_less a b = True"

fun f64_le :: "f64 \<Rightarrow> f64 \<Rightarrow> bool" where
  "f64_le (F64 x) (F64 y) = (x \<le> y)"
| "f64_le NaN b = False"
| "f64_le a NaN = False"
| "f64_le NegInf b = True"
| "f64_le a PosInf = True"
| "f64_le a b = False"

definition f64_ge :: "f64 \<Rightarrow> f64 \<Rightarrow> bool" where
  "f64_ge a b = f64_le b a"

definition f64_gt :: "f64 \<Rightarrow> f64 \<Rightarrow> bool" where
  "f64_gt a b = f64_less b a"

section \<open>DominantLatencyAnalyzer\<close>










text \<open>
  The dominance ratio is a float or \<^verbatim>\<open>float('inf')\<close>; \<open>ratio_less\<close> is \<^verbatim>\<open><\<close> on
  such values.
\<close>

datatype ratio = Ratio real | Infinite

fun ratio_less :: "ratio \<Rightarrow> ratio \<Rightarrow> bool" where
  "ratio_less (Ratio x) (Ratio y) = (x < y)"
| "ratio_less (Ratio x) Infinite = True"
| "ratio_less Infinite r = False"
















section \<open>ContentionModel\<close>

record ContentionModel =
  cm_component :: Component
  cm_quorum_size :: int
  invariants_valid :: bool

definition ContentionModel_init :: "Component \<Rightarrow> int \<Rightarrow> ContentionModel" where
  "ContentionModel_init component quorum_size =
     \<lparr>cm_component = component, cm_quorum_size = quorum_size, invariants_valid = True\<rparr>"

text \<open>
  \<^verbatim>\<open>check_invariants\<close> stores the conjunction in \<^verbatim>\<open>self.invariants_valid\<close> and returns
  it: the model returns the result together with the updated object. The comparisons are
  comparisons of floats: the threshold \<^verbatim>\<open>94.7\<close> is the double that literal denotes, and
  \<^verbatim>\<open>2/3\<close>, a division of two ints, is the double nearest to the quotient.
\<close>

definition check_invariants :: "ContentionModel \<Rightarrow> bool \<Rightarrow> f64 \<Rightarrow> bool \<times> ContentionModel" where
  "check_invariants self is_latency_dominant quorum_available =
     (let i1 = is_latency_dominant;
          i2 = f64_ge (py_float (reliability_percent (cm_component self))) (py_float 94.7);
          i3 = f64_ge quorum_available (round_f64 (2 / 3));
          self' = self\<lparr>invariants_valid := (i1 \<and> i2 \<and> i3)\<rparr>
      in (invariants_valid self', self'))"

definition is_feasible :: "ContentionModel \<Rightarrow> bool" where
  "is_feasible self = invariants_valid self"

section \<open>ConsensusRPCScheme\<close>

text \<open>
  Python values that cross the interface of the scheme: the payload given to
  \<^verbatim>\<open>prepare\<close> and whatever \<^verbatim>\<open>learn\<close> hands back.
\<close>

datatype pyval =
  PNone | PBool bool | PInt int | PFloat real | PStr string | PDict "(string \<times> pyval) list"

text \<open>
  A proposal is the dict \<^verbatim>\<open>{'timestamp': .., 'data': .., 'promises': .., 'accepts': ..}\<close>
  built by \<^verbatim>\<open>prepare\<close>. It is a mutable object: \<^verbatim>\<open>accept\<close> stores in
  \<^verbatim>\<open>self.accepted\<close> the very object that \<^verbatim>\<open>self.proposals\<close> holds, so both tables
  map a request to the address of a proposal, and \<open>heap\<close> maps an address to the
  proposal stored there. \<open>next_addr\<close> is the first address never handed out: a new dict
  is a new object. The table \<^verbatim>\<open>self.promises\<close> is created empty and never used; it is
  \<open>promises_dict\<close> here, since \<open>promises\<close> is the proposal's key.
\<close>

record Proposal =
  timestamp :: int
  data :: pyval
  promises :: int
  accepts :: int

type_synonym addr = nat

record ConsensusRPCScheme =
  dominant_component :: string
  quorum_size :: int
  proposals :: "string \<rightharpoonup> addr"
  promises_dict :: "string \<rightharpoonup> pyval"
  accepted :: "string \<rightharpoonup> addr"
  current_timestamp :: int
  heap :: "addr \<Rightarrow> Proposal"
  next_addr :: addr

definition ConsensusRPCScheme_init :: "string \<Rightarrow> int \<Rightarrow> ConsensusRPCScheme" where
  "ConsensusRPCScheme_init dominant quorum =
     \<lparr>dominant_component = dominant, quorum_size = quorum, proposals = Map.empty,
      promises_dict = Map.empty, accepted = Map.empty, current_timestamp = 0,
      heap = (\<lambda>_. \<lparr>timestamp = 0, data = PNone, promises = 0, accepts = 0\<rparr>),
      next_addr = 0\<rparr>"

definition prepare :: "ConsensusRPCScheme \<Rightarrow> string \<Rightarrow> pyval \<Rightarrow> bool \<times> ConsensusRPCScheme" where
  "prepare self request_id d =
     (let ts = current_timestamp self + 1;
          a = next_addr self
      in (True,
          self\<lparr>current_timestamp := ts,
               heap := (heap self)(a := \<lparr>timestamp = ts, data = d, promises = 0, accepts = 0\<rparr>),
               next_addr := Suc a,
               proposals := (proposals self)(request_id \<mapsto> a)\<rparr>))"

definition promise ::
  "ConsensusRPCScheme \<Rightarrow> string \<Rightarrow> string \<Rightarrow> int \<Rightarrow> bool \<times> ConsensusRPCScheme" where
  "promise self request_id node_id last_timestamp =
     (case proposals self request_id of
        None \<Rightarrow> (False, self)
      | Some a \<Rightarrow>
          (let proposal = heap self a
           in if timestamp proposal > last_timestamp
              then (True,
                    self\<lparr>heap := (heap self)(a := proposal\<lparr>promises := promises proposal + 1\<rparr>)\<rparr>)
              else (False, self)))"

definition accept :: "ConsensusRPCScheme \<Rightarrow> string \<Rightarrow> bool \<times> ConsensusRPCScheme" where
  "accept self request_id =
     (case proposals self request_id of
        None \<Rightarrow> (False, self)
      | Some a \<Rightarrow>
          (let proposal = heap self a
           in if promises proposal \<ge> quorum_size self
              then (True,
                    self\<lparr>heap := (heap self)(a := proposal\<lparr>accepts := promises proposal\<rparr>),
                         accepted := (accepted self)(request_id \<mapsto> a)\<rparr>)
              else (False, self)))"

text \<open>The proposal object as the caller of \<^verbatim>\<open>learn\<close> sees it: a dict of four keys.\<close>

definition proposal_dict :: "Proposal \<Rightarrow> pyval" where
  "proposal_dict p =
     PDict [(''timestamp'', PInt (timestamp p)), (''data'', data p),
            (''promises'', PInt (promises p)), (''accepts'', PInt (accepts p))]"

definition learn :: "ConsensusRPCScheme \<Rightarrow> string \<Rightarrow> pyval" where
  "learn self request_id =
     (case accepted self request_id of
        None \<Rightarrow> PNone
      | Some a \<Rightarrow> proposal_dict (heap self a))"

definition is_consensus_valid :: "ConsensusRPCScheme \<Rightarrow> bool \<Rightarrow> bool" where
  "is_consensus_valid self latency_dominance_holds = latency_dominance_holds"

text \<open>
  A history of calls on one scheme. \<open>step\<close> is one call with its return value,
  \<open>exec\<close> the state after a history, and \<open>accept_succeeded s ops r\<close> says that some
  \<^verbatim>\<open>accept(r)\<close> of the history \<open>ops\<close>, started in \<open>s\<close>, returned true.
\<close>

datatype call = Prepare string pyval | Promise string string int | Accept string

fun step :: "ConsensusRPCScheme \<Rightarrow> call \<Rightarrow> bool \<times> ConsensusRPCScheme" where
  "step s (Prepare r d) = prepare s r d"
| "step s (Promise r n l) = promise s r n l"
| "step s (Accept r) = accept s r"

fun exec :: "ConsensusRPCScheme \<Rightarrow> call list \<Rightarrow> ConsensusRPCScheme" where
  "exec s [] = s"
| "exec s (c # cs) = exec (snd (step s c)) cs"

fun accept_succeeded :: "ConsensusRPCScheme \<Rightarrow> call list \<Rightarrow> string \<Rightarrow> bool" where
  "accept_succeeded s [] r = False"
| "accept_succeeded s (c # cs) r =
     ((c = Accept r \<and> fst (step s c)) \<or> accept_succeeded (snd (step s c)) cs r)"

text \<open>The record \<^verbatim>\<open>self.accepted\<close> holds for a request, if any.\<close>

definition accepted_record :: "ConsensusRPCScheme \<Rightarrow> string \<Rightarrow> Proposal option" where
  "accepted_record s r = map_option (heap s) (accepted s r)"


text \<open>
  Invariants of the states a history reaches. \<open>ptrs_ok\<close>: every stored address has
  been handed out, two requests never share a proposal object, and an accepted object is
  the proposal of no other request. \<open>payloads_from s P\<close>: the payload of every stored
  object of a request \<open>r\<close> is in \<open>P r\<close>.
\<close>

definition ptrs_ok :: "ConsensusRPCScheme \<Rightarrow> bool" where
  "ptrs_ok s \<longleftrightarrow>
     (\<forall>r a. proposals s r = Some a \<longrightarrow> a < next_addr s)
     \<and> (\<forall>r a. accepted s r = Some a \<longrightarrow> a < next_addr s)
     \<and> (\<forall>r r' a. proposals s r = Some a \<longrightarrow> proposals s r' = Some a \<longrightarrow> r = r')
     \<and> (\<forall>r r' a. accepted s r = Some a \<longrightarrow> proposals s r' = Some a \<longrightarrow> r = r')"

definition payloads_from :: "ConsensusRPCScheme \<Rightarrow> (string \<Rightarrow> pyval set) \<Rightarrow> bool" where
  "payloads_from s P \<longleftrightarrow>
     (\<forall>r a. proposals s r = Some a \<longrightarrow> data (heap s a) \<in> P r)
     \<and> (\<forall>r a. accepted s r = Some a \<longrightarrow> data (heap s a) \<in> P r)"

fun prepared :: "call \<Rightarrow> string \<Rightarrow> pyval set" where
  "prepared (Prepare r' d) r = (if r' = r then {d} else {})"
| "prepared (Promise r' n l) r = {}"
| "prepared (Accept r') r = {}"




text \<open>
  The same history read for one request \<open>r\<close>, with values in place of objects and no
  heap. \<open>v_clock\<close> is \<^verbatim>\<open>current_timestamp\<close>, \<open>v_proposal\<close> the content of
  \<^verbatim>\<open>proposals[r]\<close>, and \<open>v_shared\<close> says that \<^verbatim>\<open>accepted[r]\<close> is that very object,
  which is so from a successful \<^verbatim>\<open>accept(r)\<close> until the next \<^verbatim>\<open>prepare(r, ..)\<close> puts
  a new dict into \<^verbatim>\<open>proposals[r]\<close>; from then on no call reaches the accepted object
  any more, and \<open>v_detached\<close> holds its content. \<open>view_accepted\<close> is the content of
  \<^verbatim>\<open>accepted[r]\<close>, and \<open>view_of\<close> relates a state of the scheme to its view.
\<close>

record request_view =
  v_clock :: int
  v_proposal :: "Proposal option"
  v_detached :: "Proposal option"
  v_shared :: bool

definition view_init :: request_view where
  "view_init = \<lparr>v_clock = 0, v_proposal = None, v_detached = None, v_shared = False\<rparr>"

fun view_step :: "int \<Rightarrow> string \<Rightarrow> request_view \<Rightarrow> call \<Rightarrow> request_view" where
  "view_step q r v (Prepare r' d) =
     (if r' = r then
        v\<lparr>v_clock := v_clock v + 1,
          v_proposal := Some \<lparr>timestamp = v_clock v + 1, data = d, promises = 0, accepts = 0\<rparr>,
          v_detached := (if v_shared v then v_proposal v else v_detached v),
          v_shared := False\<rparr>
      else v\<lparr>v_clock := v_clock v + 1\<rparr>)"
| "view_step q r v (Promise r' n l) =
     (if r' = r then
        (case v_proposal v of
           None \<Rightarrow> v
         | Some p \<Rightarrow>
             if timestamp p > l then v\<lparr>v_proposal := Some (p\<lparr>promises := promises p + 1\<rparr>)\<rparr>
             else v)
      else v)"
| "view_step q r v (Accept r') =
     (if r' = r then
        (case v_proposal v of
           None \<Rightarrow> v
         | Some p \<Rightarrow>
             if promises p \<ge> q
             then v\<lparr>v_proposal := Some (p\<lparr>accepts := promises p\<rparr>), v_shared := True\<rparr>
             else v)
      else v)"

definition view_accepted :: "request_view \<Rightarrow> Proposal option" where
  "view_accepted v = (if v_shared v then v_proposal v else v_detached v)"

definition history_view :: "int \<Rightarrow> call list \<Rightarrow> string \<Rightarrow> request_view" where
  "history_view q cs r = foldl (view_step q r) view_init cs"

definition view_of :: "ConsensusRPCScheme \<Rightarrow> string \<Rightarrow> request_view \<Rightarrow> bool" where
  "view_of s r v \<longleftrightarrow>
     v_clock v = current_timestamp s
     \<and> v_proposal v = map_option (heap s) (proposals s r)
     \<and> (v_shared v \<longleftrightarrow> accepted s r \<noteq> None \<and> accepted s r = proposals s r)
     \<and> view_accepted v = accepted_record s r"

text \<open>
  The calls \<^verbatim>\<open>run_full_optimization\<close> makes on its scheme (quorum size 2), and their
  payload \<^verbatim>\<open>{"payload": "test"}\<close>.
\<close>

definition sample_payload :: pyval where
  "sample_payload = PDict [(''payload'', PStr ''test'')]"

definition sample_calls :: "call list" where
  "sample_calls =
     [Prepare ''req_001'' sample_payload, Promise ''req_001'' ''node1'' 0,
      Promise ''req_001'' ''node2'' 0, Accept ''req_001'']"

section \<open>LatencyElasticityOptimizer\<close>







record LatencyElasticityOptimizer =
  base_latency :: real
  alpha :: real
  beta :: real

definition LatencyElasticityOptimizer_init :: "real \<Rightarrow> real \<Rightarrow> real \<Rightarrow> LatencyElasticityOptimizer" where
  "LatencyElasticityOptimizer_init bl a b = \<lparr>base_latency = bl, alpha = a, beta = b\<rparr>"

text \<open>The default arguments \<^verbatim>\<open>alpha: float = 0.2, beta: float = 1.5\<close>.\<close>

definition default_alpha :: real where
  "default_alpha = 0.2"

definition default_beta :: real where
  "default_beta = 1.5"



section \<open>ThroughputOptimizer\<close>

record ThroughputOptimizer =
  to_component :: Component
  request_size_gb :: real
  divergence_limit :: real
  elasticity_optimizer :: LatencyElasticityOptimizer

text \<open>
  The constructor builds its elasticity optimizer from the component's latency alone, so
  with the default \<open>alpha\<close> and \<open>beta\<close>. Its own default arguments are
  \<^verbatim>\<open>request_size_gb = 0.05\<close> and \<^verbatim>\<open>divergence_limit = 0.15\<close>.
\<close>

definition ThroughputOptimizer_init :: "Component \<Rightarrow> real \<Rightarrow> real \<Rightarrow> ThroughputOptimizer" where
  "ThroughputOptimizer_init component rs dl =
     \<lparr>to_component = component, request_size_gb = rs, divergence_limit = dl,
      elasticity_optimizer =
        LatencyElasticityOptimizer_init (latency_ms component) default_alpha default_beta\<rparr>"












section \<open>Properties\<close>

subsection \<open>Double-precision floats\<close>

text \<open>Rounding to an integer is monotone and odd, and leaves an integer as it is.\<close>

lemma rhe_of_int [simp]: "round_half_even (of_int n) = n"
  by (simp add: round_half_even_def)

lemma rhe_0 [simp]: "round_half_even 0 = 0"
  using rhe_of_int [of 0] by simp

lemma rhe_mono: "x \<le> y \<Longrightarrow> round_half_even x \<le> round_half_even y"
proof -
  assume xy: "x \<le> y"
  then have f: "\<lfloor>x\<rfloor> \<le> \<lfloor>y\<rfloor>" by (rule floor_mono)
  show ?thesis
  proof (cases "\<lfloor>x\<rfloor> = \<lfloor>y\<rfloor>")
    case True
    with xy show ?thesis by (auto simp add: round_half_even_def Let_def)
  next
    case False
    with f have "\<lfloor>x\<rfloor> + 1 \<le> \<lfloor>y\<rfloor>" by simp
    moreover have "round_half_even x \<le> \<lfloor>x\<rfloor> + 1" by (simp add: round_half_even_def Let_def)
    moreover have "\<lfloor>y\<rfloor> \<le> round_half_even y" by (simp add: round_half_even_def Let_def)
    ultimately show ?thesis by linarith
  qed
qed

lemma rhe_neg: "round_half_even (- x) = - round_half_even x"
proof (cases "x \<in> \<int>")
  case True
  then obtain n where "x = of_int n" by (auto elim: Ints_cases)
  then show ?thesis by (simp flip: of_int_minus)
next
  case False
  then have ne: "x \<noteq> of_int \<lfloor>x\<rfloor>"
    by (metis Ints_of_int)
  then have "\<lceil>x\<rceil> = \<lfloor>x\<rfloor> + 1"
    by (simp add: ceiling_altdef)
  then have fl: "\<lfloor>- x\<rfloor> = - \<lfloor>x\<rfloor> - 1"
    by (simp add: ceiling_def)
  have ev: "even (- \<lfloor>x\<rfloor> - 1) \<longleftrightarrow> \<not> even \<lfloor>x\<rfloor>"
    by simp
  define f where "f = \<lfloor>x\<rfloor>"
  define d where "d = x - of_int f"
  have x: "x = of_int f + d" by (simp add: d_def)
  have d: "0 < d" "d < 1"
    using ne unfolding d_def f_def
    by (linarith, linarith)
  show ?thesis
    unfolding round_half_even_def Let_def fl ev
    unfolding f_def [symmetric]
    using d by (simp add: x) 
qed

text \<open>
  The exponent at a magnitude, without the search, and with it the value of
  \<open>round_double\<close> at a given real. Rounding is monotone.
\<close>

lemma ulp_search_bounds: "- 1074 \<le> ulp_search n a \<and> ulp_search n a \<le> int n - 1074"
  by (induction n) auto

lemma ulp_search_low: "a < 2 powi (- 1021) \<Longrightarrow> ulp_search n a = - 1074"
proof (induction n)
  case 0
  show ?case by simp
next
  case (Suc n)
  have "(2::real) powi (- 1021) \<le> 2 powi (int n - 1021)"
    by (rule power_int_increasing) simp_all
  with Suc show ?case by simp
qed

lemma ulp_search_eq:
  assumes "j < n" "2 powi (int j - 1021) \<le> a" "Suc j < n \<longrightarrow> a < 2 powi (int j - 1020)"
  shows "ulp_search n a = int j - 1073"
  using assms
proof (induction n)
  case 0
  then show ?case by simp
next
  case (Suc n)
  show ?case
  proof (cases "j = n")
    case True
    with Suc.prems show ?thesis by simp
  next
    case False
    with Suc.prems have jn: "j < n" by simp
    with Suc.prems have up: "a < 2 powi (int j - 1020)" by simp
    have "(2::real) powi (int j - 1020) \<le> 2 powi (int n - 1021)"
      by (rule power_int_increasing) (use jn in simp_all)
    with up have "\<not> 2 powi (int n - 1021) \<le> a" by simp
    moreover have "ulp_search n a = int j - 1073"
    proof (rule Suc.IH [OF jn Suc.prems(2)])
      show "Suc j < n \<longrightarrow> a < 2 powi (int j - 1020)" using up by simp
    qed
    ultimately show ?thesis by simp
  qed
qed

text \<open>What the exponent is, without the search.\<close>

lemma ulp_search_spec:
  "(- 1074 < ulp_search n a \<longrightarrow> 2 powi (ulp_search n a + 52) \<le> a)
   \<and> (ulp_search n a < int n - 1074 \<longrightarrow> a < 2 powi (ulp_search n a + 53))"
proof (induction n)
  case 0
  show ?case by simp
next
  case (Suc n)
  show ?case
  proof (cases "2 powi (int n - 1021) \<le> a")
    case True
    then have "ulp_search (Suc n) a = int n - 1073" by simp
    moreover have "int n - 1073 + 52 = int n - 1021" by simp
    ultimately show ?thesis using True by simp
  next
    case False
    then have lt: "a < 2 powi (int n - 1021)" by simp
    from False have eq: "ulp_search (Suc n) a = ulp_search n a" by simp
    have up: "a < 2 powi (ulp_search n a + 53)"
    proof (cases "ulp_search n a < int n - 1074")
      case True
      with Suc show ?thesis by blast
    next
      case False
      with ulp_search_bounds [of n a] have "ulp_search n a = int n - 1074" by simp
      then have "int n - 1021 = ulp_search n a + 53" by simp
      with lt show ?thesis by (simp only:)
    qed
    from Suc up show ?thesis unfolding eq by blast
  qed
qed

lemma ulp_exp_range: "- 1074 \<le> ulp_exp a" "ulp_exp a \<le> 971"
  using ulp_search_bounds [of 2045 a] by (simp_all add: ulp_exp_def)

lemma ulp_exp_lower: "- 1074 < ulp_exp a \<Longrightarrow> 2 powi (ulp_exp a + 52) \<le> a"
  using ulp_search_spec [of 2045 a] by (simp add: ulp_exp_def)

lemma ulp_exp_upper: "ulp_exp a < 971 \<Longrightarrow> a < 2 powi (ulp_exp a + 53)"
  using ulp_search_spec [of 2045 a] by (simp add: ulp_exp_def)

lemma ulp_exp_eq:
  assumes "- 1074 \<le> e" "e \<le> 971" "e = - 1074 \<or> 2 powi (e + 52) \<le> a"
    "e = 971 \<or> a < 2 powi (e + 53)"
  shows "ulp_exp a = e"
proof (cases "e = - 1074")
  case True
  with assms(4) have "a < 2 powi (- 1021)" by simp
  then show ?thesis unfolding ulp_exp_def True by (rule ulp_search_low)
next
  case False
  define j where "j = nat (e + 1073)"
  from False assms(1,2) have j: "int j = e + 1073" "j < 2045" by (simp_all add: j_def)
  have "ulp_search 2045 a = int j - 1073"
  proof (rule ulp_search_eq)
    show "j < 2045" by (rule j)
    show "2 powi (int j - 1021) \<le> a" using assms(3) False by (simp add: j algebra_simps)
    show "Suc j < 2045 \<longrightarrow> a < 2 powi (int j - 1020)"
      using assms(4) j by (auto simp add: algebra_simps)
  qed
  then show ?thesis by (simp add: ulp_exp_def j)
qed

lemma ulp_exp_mono: "a \<le> b \<Longrightarrow> ulp_exp a \<le> ulp_exp b"
proof (rule ccontr)
  assume ab: "a \<le> b" and "\<not> ulp_exp a \<le> ulp_exp b"
  then have lt: "ulp_exp b < ulp_exp a" by simp
  with ulp_exp_range [of a] ulp_exp_range [of b]
  have "ulp_exp b < 971" "- 1074 < ulp_exp a" by linarith+
  then have "b < 2 powi (ulp_exp b + 53)" "2 powi (ulp_exp a + 52) \<le> a"
    by (simp_all add: ulp_exp_upper ulp_exp_lower)
  moreover have "(2::real) powi (ulp_exp b + 53) \<le> 2 powi (ulp_exp a + 52)"
    by (rule power_int_increasing) (use lt in simp_all)
  ultimately show False using ab by linarith
qed

lemma round_double_eval:
  assumes "- 1074 \<le> e" "e \<le> 971" "e = - 1074 \<or> 2 powi (e + 52) \<le> \<bar>x\<bar>"
    "e = 971 \<or> \<bar>x\<bar> < 2 powi (e + 53)"
    "round_half_even (x / 2 powi e) = m"
  shows "round_double x = of_int m * 2 powi e"
  using ulp_exp_eq [OF assms(1-4)] assms(5) by (simp add: round_double_def)

lemma round_double_neg: "round_double (- x) = - round_double x"
  by (simp add: round_double_def rhe_neg)

lemma round_double_0 [simp]: "round_double 0 = 0"
  by (simp add: round_double_def)

lemma round_double_nonneg: "0 \<le> x \<Longrightarrow> 0 \<le> round_double x"
proof -
  assume "0 \<le> x"
  then have "0 \<le> x / 2 powi ulp_exp \<bar>x\<bar>" by simp
  from rhe_mono [OF this] show ?thesis by (simp add: round_double_def)
qed

lemma round_double_mono_nonneg:
  assumes "0 \<le> x" "x \<le> y"
  shows "round_double x \<le> round_double y"
proof -
  let ?ex = "ulp_exp \<bar>x\<bar>" and ?ey = "ulp_exp \<bar>y\<bar>"
  from assms have ax: "\<bar>x\<bar> = x" and ay: "\<bar>y\<bar> = y" by simp_all
  from assms have le: "?ex \<le> ?ey" by (intro ulp_exp_mono) simp
  show ?thesis
  proof (cases "?ex = ?ey")
    case True
    from assms(2) have "x / 2 powi ?ey \<le> y / 2 powi ?ey"
      by (simp add: divide_right_mono)
    from rhe_mono [OF this] show ?thesis
      by (simp add: round_double_def True mult_right_mono)
  next
    case False
    with le have lt: "?ex < ?ey" by simp
    with ulp_exp_range [of "\<bar>x\<bar>"] ulp_exp_range [of "\<bar>y\<bar>"]
    have "?ex < 971" "- 1074 < ?ey" by linarith+
    then have ux: "x < 2 powi (?ex + 53)" and ly: "2 powi (?ey + 52) \<le> y"
      using ulp_exp_upper [of "\<bar>x\<bar>"] ulp_exp_lower [of "\<bar>y\<bar>"] by (simp_all add: ax ay)
    have "x / 2 powi ?ex \<le> 2 powi 53"
      using ux by (simp add: power_int_add field_simps)
    then have "x / 2 powi ?ex \<le> of_int (2 ^ 53)" by simp
    from rhe_mono [OF this] have "round_half_even (x / 2 powi ?ex) \<le> 2 ^ 53"
      by (simp only: rhe_of_int)
    then have "real_of_int (round_half_even (x / 2 powi ?ex)) \<le> real_of_int (2 ^ 53)"
      by (simp only: of_int_le_iff)
    then have "real_of_int (round_half_even (x / 2 powi ?ex)) \<le> 2 ^ 53"
      by simp
    then have "round_double x \<le> 2 ^ 53 * 2 powi ?ex"
      by (simp add: round_double_def mult_right_mono)
    also have "\<dots> = 2 powi (?ex + 53)" by (simp add: power_int_add)
    also have "\<dots> \<le> 2 powi (?ey + 52)"
      by (rule power_int_increasing) (use lt in simp_all)
    finally have one: "round_double x \<le> 2 powi (?ey + 52)" .
    have "2 powi 52 \<le> y / 2 powi ?ey"
      using ly by (simp add: power_int_add field_simps)
    then have "of_int (2 ^ 52) \<le> y / 2 powi ?ey" by simp
    from rhe_mono [OF this] have "2 ^ 52 \<le> round_half_even (y / 2 powi ?ey)"
      by (simp only: rhe_of_int)
    then have "real_of_int (2 ^ 52) \<le> real_of_int (round_half_even (y / 2 powi ?ey))"
      by (simp only: of_int_le_iff)
    then have "2 ^ 52 \<le> real_of_int (round_half_even (y / 2 powi ?ey))"
      by simp
    then have "2 ^ 52 * 2 powi ?ey \<le> round_double y"
      by (simp add: round_double_def mult_right_mono)
    moreover have "(2::real) ^ 52 * 2 powi ?ey = 2 powi (?ey + 52)" by (simp add: power_int_add)
    ultimately have "2 powi (?ey + 52) \<le> round_double y" by simp
    with one show ?thesis by linarith
  qed
qed

lemma round_double_mono: "x \<le> y \<Longrightarrow> round_double x \<le> round_double y"
proof -
  assume xy: "x \<le> y"
  consider "0 \<le> x" | "y \<le> 0" | "x \<le> 0" "0 \<le> y" by linarith
  then show ?thesis
  proof cases
    case 1
    then show ?thesis using xy by (rule round_double_mono_nonneg)
  next
    case 2
    with xy have "0 \<le> - y" "- y \<le> - x" by simp_all
    from round_double_mono_nonneg [OF this] show ?thesis by (simp add: round_double_neg)
  next
    case 3
    then have "0 \<le> - x" by simp
    from round_double_nonneg [OF this] round_double_nonneg [OF 3(2)]
    show ?thesis by (simp add: round_double_neg)
  qed
qed

text \<open>The order of floats, and the doubles among the reals.\<close>

lemma round_f64_mono: "x \<le> y \<Longrightarrow> f64_le (round_f64 x) (round_f64 y)"
  using round_double_mono [of x y] by (simp add: round_f64_def Let_def)

lemma round_f64_not_NaN [simp]: "round_f64 x \<noteq> NaN"
  by (simp add: round_f64_def Let_def)

lemma f64_less_not_le: "f64_less a b \<Longrightarrow> \<not> f64_le b a"
  by (cases a; cases b) simp_all

lemma round_f64_eval:
  assumes "round_double x = y" "\<bar>y\<bar> < 2 powi 1024"
  shows "round_f64 x = F64 y"
  using assms by (auto simp add: round_f64_def Let_def)

subsection \<open>ContentionModel\<close>

text \<open>
  The two thresholds as doubles: \<^verbatim>\<open>94.7\<close> is \<open>6663920073624781 / 2 ^ 46\<close>, a little
  above the real 94.7, and \<^verbatim>\<open>2/3\<close> is \<open>6004799503160661 / 2 ^ 53\<close>, a little below the
  real 2/3.
\<close>

lemma round_double_947: "round_double 94.7 = 6663920073624781 / 2 ^ 46"
proof -
  have "round_double 94.7 = of_int 6663920073624781 * 2 powi (- 46)"
    by (rule round_double_eval) (simp_all add: round_half_even_def Let_def)
  then show ?thesis by (simp add: power_int_minus field_simps)
qed

lemma round_double_two_thirds: "round_double (2 / 3) = 6004799503160661 / 2 ^ 53"
proof -
  have "round_double (2 / 3) = of_int 6004799503160661 * 2 powi (- 53)"
    by (rule round_double_eval) (simp_all add: round_half_even_def Let_def)
  then show ?thesis by (simp add: power_int_minus field_simps)
qed

lemma py_float_947: "py_float 94.7 = F64 (6663920073624781 / 2 ^ 46)"
  by (simp add: py_float_def round_f64_def round_double_947)

lemma round_f64_two_thirds: "round_f64 (2 / 3) = F64 (6004799503160661 / 2 ^ 53)"
  by (simp add: round_f64_def round_double_two_thirds)

text \<open>
  A double is at least the double 94.7 exactly when it is at least the real 94.7; it is
  at least the double 2/3 exactly when it is at least the real 2/3 or is that double.
\<close>

lemma ge_947_double:
  assumes "round_double r = r"
  shows "f64_ge (py_float r) (py_float 94.7) \<longleftrightarrow> 94.7 \<le> r"
proof
  assume "f64_ge (py_float r) (py_float 94.7)"
  then show "94.7 \<le> r"
    unfolding py_float_947 f64_ge_def
    by (auto simp add: py_float_def round_f64_def assms Let_def split: if_splits)
next
  assume "94.7 \<le> r"
  from round_f64_mono [OF this] show "f64_ge (py_float r) (py_float 94.7)"
    by (simp add: f64_ge_def py_float_def)
qed

lemma ge_two_thirds_double:
  assumes "round_double q = q"
  shows "f64_ge (round_f64 q) (round_f64 (2 / 3)) \<longleftrightarrow> 2 / 3 \<le> q \<or> q = 6004799503160661 / 2 ^ 53"
proof
  assume ge: "f64_ge (round_f64 q) (round_f64 (2 / 3))"
  show "2 / 3 \<le> q \<or> q = 6004799503160661 / 2 ^ 53"
  proof (rule ccontr)
    assume "\<not> (2 / 3 \<le> q \<or> q = 6004799503160661 / 2 ^ 53)"
    then have lt: "q < 2 / 3" and ne: "q \<noteq> 6004799503160661 / 2 ^ 53" by simp_all
    from lt have "round_double q \<le> round_double (2 / 3)" by (intro round_double_mono) simp
    then have "q \<le> 6004799503160661 / 2 ^ 53" by (simp add: assms round_double_two_thirds)
    with ne have "q < 6004799503160661 / 2 ^ 53" by simp
    with ge show False
      unfolding round_f64_two_thirds f64_ge_def
      by (auto simp add: round_f64_def assms Let_def split: if_splits)
  qed
next
  assume "2 / 3 \<le> q \<or> q = 6004799503160661 / 2 ^ 53"
  then show "f64_ge (round_f64 q) (round_f64 (2 / 3))"
  proof
    assume "2 / 3 \<le> q"
    from round_f64_mono [OF this] show ?thesis by (simp add: f64_ge_def)
  next
    assume q: "q = 6004799503160661 / 2 ^ 53"
    have "round_f64 q = F64 (6004799503160661 / 2 ^ 53)"
      using assms unfolding q by (simp add: round_f64_def)
    then show ?thesis by (simp add: round_f64_two_thirds f64_ge_def)
  qed
qed

text \<open>
  Claim C6. \<^verbatim>\<open>check_invariants(is_latency_dominant, quorum_available)\<close> returns true
  exactly when the dominance flag is true, the component's reliability is at least 94.7
  and the quorum availability is at least 2/3, the numbers being floats: 94.7 and 2/3
  are the doubles \<open>6663920073624781 / 2 ^ 46\<close> and \<open>6004799503160661 / 2 ^ 53\<close>. So it
  returns false whenever the reliability is below 94.7, whatever the other two arguments
  are, and true at the boundary: reliability exactly 94.7, availability exactly 2/3, flag
  true. For a reliability that is a double, being at least the float 94.7 is being at
  least the real number 94.7; for an availability that is a double, being at least the
  float 2/3 is being at least the real number 2/3 or being the float 2/3 itself. An
  availability that is NaN gives false. The returned value is also the one cached in
  \<^verbatim>\<open>invariants_valid\<close>.
\<close>

theorem check_invariants_iff:
  "(fst (check_invariants self d q) \<longleftrightarrow>
      d \<and> f64_ge (py_float (reliability_percent (cm_component self))) (py_float 94.7)
        \<and> f64_ge q (round_f64 (2 / 3)))
   \<and> py_float 94.7 = F64 (6663920073624781 / 2 ^ 46)
   \<and> round_f64 (2 / 3) = F64 (6004799503160661 / 2 ^ 53)
   \<and> (f64_less (py_float (reliability_percent (cm_component self))) (py_float 94.7) \<longrightarrow>
        \<not> fst (check_invariants self d q))
   \<and> (reliability_percent (cm_component self) = 94.7 \<longrightarrow>
        fst (check_invariants self True (round_f64 (2 / 3))))
   \<and> (round_double (reliability_percent (cm_component self)) = reliability_percent (cm_component self) \<longrightarrow>
        (f64_ge (py_float (reliability_percent (cm_component self))) (py_float 94.7)
          \<longleftrightarrow> 94.7 \<le> reliability_percent (cm_component self)))
   \<and> (round_double x = x \<longrightarrow>
        (fst (check_invariants self d (round_f64 x)) \<longleftrightarrow>
           d \<and> f64_ge (py_float (reliability_percent (cm_component self))) (py_float 94.7)
             \<and> (2 / 3 \<le> x \<or> x = 6004799503160661 / 2 ^ 53)))
   \<and> \<not> fst (check_invariants self d NaN)
   \<and> is_feasible (snd (check_invariants self d q)) = fst (check_invariants self d q)"
proof -
  have iff: "\<And>q. fst (check_invariants self d q) \<longleftrightarrow>
      d \<and> f64_ge (py_float (reliability_percent (cm_component self))) (py_float 94.7)
        \<and> f64_ge q (round_f64 (2 / 3))"
    by (simp add: check_invariants_def Let_def)
  have low: "f64_less (py_float (reliability_percent (cm_component self))) (py_float 94.7) \<longrightarrow>
        \<not> fst (check_invariants self d q)"
    unfolding iff f64_ge_def using f64_less_not_le by blast
  have bound: "reliability_percent (cm_component self) = 94.7 \<longrightarrow>
        fst (check_invariants self True (round_f64 (2 / 3)))"
  proof
    assume e: "reliability_percent (cm_component self) = 94.7"
    have "f64_ge (py_float (reliability_percent (cm_component self))) (py_float 94.7)"
      unfolding e py_float_947 by (simp add: f64_ge_def)
    then show "fst (check_invariants self True (round_f64 (2 / 3)))"
      by (simp add: check_invariants_def Let_def round_f64_two_thirds) (simp add: f64_ge_def)
  qed
  have nan: "\<not> fst (check_invariants self d NaN)"
    by (simp add: check_invariants_def Let_def f64_ge_def round_f64_two_thirds)
  have feas: "is_feasible (snd (check_invariants self d q)) = fst (check_invariants self d q)"
    by (simp add: check_invariants_def is_feasible_def Let_def)
  from iff [of q] iff [of "round_f64 x"] py_float_947 round_f64_two_thirds low bound nan feas
    ge_947_double [of "reliability_percent (cm_component self)"] ge_two_thirds_double [of x]
  show ?thesis by blast
qed

text \<open>
  The calls of \<^verbatim>\<open>run_full_optimization\<close> pass the availability \<^verbatim>\<open>0.95\<close>; the sample
  component \<^verbatim>\<open>CloudInference\<close> has reliability 92.4 and \<^verbatim>\<open>WebGateway\<close> has 94.7. The
  double next below the float 2/3 is \<open>6004799503160660 / 2 ^ 53\<close>.
\<close>

theorem check_invariants_iff_witness:
  "f64_less (py_float (reliability_percent (cm_component (ContentionModel_init CloudInference 2))))
      (py_float 94.7)
   \<and> \<not> fst (check_invariants (ContentionModel_init CloudInference 2) True (py_float 0.95))
   \<and> reliability_percent (cm_component (ContentionModel_init WebGateway 2)) = 94.7
   \<and> fst (check_invariants (ContentionModel_init WebGateway 2) True (round_f64 (2 / 3)))
   \<and> fst (check_invariants (ContentionModel_init WebGateway 2) True
        (F64 (6004799503160661 / 2 ^ 53)))
   \<and> \<not> fst (check_invariants (ContentionModel_init WebGateway 2) True
        (F64 (6004799503160660 / 2 ^ 53)))
   \<and> \<not> fst (check_invariants (ContentionModel_init WebGateway 2) False (round_f64 (2 / 3)))
   \<and> \<not> fst (check_invariants (ContentionModel_init WebGateway 2) True NaN)
   \<and> fst (check_invariants (ContentionModel_init WebGateway 2) True PosInf)"
proof -
  have r: "round_double 92.4 = 6502071962016154 / 2 ^ 46"
  proof -
    have "round_double 92.4 = of_int 6502071962016154 * 2 powi (- 46)"
      by (rule round_double_eval) (simp_all add: round_half_even_def Let_def)
    then show ?thesis by (simp add: power_int_minus field_simps)
  qed
  have "py_float 92.4 = F64 (6502071962016154 / 2 ^ 46)"
    unfolding py_float_def by (rule round_f64_eval [OF r]) simp
  moreover have "reliability_percent (cm_component (ContentionModel_init CloudInference 2)) = 92.4"
    by (simp add: ContentionModel_init_def CloudInference_def)
  ultimately have low: "f64_less (py_float (reliability_percent (cm_component (ContentionModel_init CloudInference 2))))
      (py_float 94.7)"
    by (simp only: py_float_947) simp
  have eq: "reliability_percent (cm_component (ContentionModel_init WebGateway 2)) = 94.7"
    by (simp add: ContentionModel_init_def WebGateway_def)
  have rel: "f64_ge (py_float (reliability_percent (cm_component (ContentionModel_init WebGateway 2))))
      (py_float 94.7)"
    unfolding eq py_float_947 by (simp add: f64_ge_def)
  have a: "\<not> fst (check_invariants (ContentionModel_init CloudInference 2) True (py_float 0.95))"
    using low check_invariants_iff [of "ContentionModel_init CloudInference 2" True "py_float 0.95" 0]
    by blast
  have b: "fst (check_invariants (ContentionModel_init WebGateway 2) True (round_f64 (2 / 3)))"
    using eq check_invariants_iff [of "ContentionModel_init WebGateway 2" True "round_f64 (2 / 3)" 0]
    by blast
  have c: "fst (check_invariants (ContentionModel_init WebGateway 2) True
        (F64 (6004799503160661 / 2 ^ 53)))"
    using b unfolding round_f64_two_thirds .
  have "\<not> f64_ge (F64 (6004799503160660 / 2 ^ 53)) (round_f64 (2 / 3))"
    unfolding round_f64_two_thirds by (simp add: f64_ge_def)
  then have d: "\<not> fst (check_invariants (ContentionModel_init WebGateway 2) True
        (F64 (6004799503160660 / 2 ^ 53)))"
    using check_invariants_iff [of "ContentionModel_init WebGateway 2" True
        "F64 (6004799503160660 / 2 ^ 53)" 0]
    by blast
  have e: "\<not> fst (check_invariants (ContentionModel_init WebGateway 2) False (round_f64 (2 / 3)))"
    using check_invariants_iff [of "ContentionModel_init WebGateway 2" False "round_f64 (2 / 3)" 0]
    by blast
  have f: "\<not> fst (check_invariants (ContentionModel_init WebGateway 2) True NaN)"
    using check_invariants_iff [of "ContentionModel_init WebGateway 2" True NaN 0]
    by blast
  have "f64_ge PosInf (round_f64 (2 / 3))"
    unfolding round_f64_two_thirds by (simp add: f64_ge_def)
  then have g: "fst (check_invariants (ContentionModel_init WebGateway 2) True PosInf)"
    using rel check_invariants_iff [of "ContentionModel_init WebGateway 2" True PosInf 0]
    by blast
  from low a eq b c d e f g show ?thesis by blast
qed

subsection \<open>ConsensusRPCScheme\<close>

text \<open>The pointer invariant holds in a new scheme and is kept by every call.\<close>

lemma ptrs_ok_init: "ptrs_ok (ConsensusRPCScheme_init dc q)"
  by (simp add: ptrs_ok_def ConsensusRPCScheme_init_def)

lemma ptrs_ok_step: "ptrs_ok s \<Longrightarrow> ptrs_ok (snd (step s c))"
proof (cases c)
  case (Prepare r d)
  assume "ptrs_ok s"
  then show ?thesis unfolding Prepare ptrs_ok_def
    by (auto simp add: prepare_def Let_def less_Suc_eq split: if_splits)
next
  case (Promise r n l)
  assume "ptrs_ok s"
  then show ?thesis unfolding Promise ptrs_ok_def
    by (auto simp add: promise_def Let_def split: option.splits)
next
  case (Accept r)
  assume "ptrs_ok s"
  then show ?thesis unfolding Accept ptrs_ok_def
    by (auto simp add: accept_def Let_def split: option.splits if_splits)
qed



text \<open>
  A request enters the accepted table exactly by a successful accept, and never leaves it.
\<close>

lemma accepted_step:
  "accepted (snd (step s c)) r \<noteq> None \<longleftrightarrow> accepted s r \<noteq> None \<or> (c = Accept r \<and> fst (step s c))"
  by (cases c) (auto simp add: prepare_def promise_def accept_def Let_def split: option.splits)

lemma accepted_exec:
  "accepted (exec s cs) r \<noteq> None \<longleftrightarrow> accepted s r \<noteq> None \<or> accept_succeeded s cs r"
proof (induction cs arbitrary: s)
  case Nil
  show ?case by simp
next
  case (Cons c cs)
  show ?case using Cons.IH [of "snd (step s c)"] accepted_step [of s c r] by auto
qed

text \<open>
  Every stored payload of a request was given to a prepare call for that request.
\<close>

lemma payloads_step:
  assumes "ptrs_ok s" "payloads_from s P"
  shows "payloads_from (snd (step s c)) (\<lambda>r. P r \<union> prepared c r)"
proof (cases c)
  case (Prepare r d)
  from assms show ?thesis unfolding Prepare ptrs_ok_def payloads_from_def
    by (auto simp add: prepare_def Let_def split: if_splits)
next
  case (Promise r n l)
  from assms show ?thesis unfolding Promise ptrs_ok_def payloads_from_def
    by (auto simp add: promise_def Let_def split: option.splits)
next
  case (Accept r)
  from assms show ?thesis unfolding Accept ptrs_ok_def payloads_from_def
    by (auto simp add: accept_def Let_def split: option.splits if_splits)
qed

lemma payloads_exec:
  assumes "ptrs_ok s" "payloads_from s P"
  shows "payloads_from (exec s cs) (\<lambda>r. P r \<union> {d. Prepare r d \<in> set cs})"
  using assms
proof (induction cs arbitrary: s P)
  case Nil
  then show ?case by simp
next
  case (Cons c cs)
  have eq: "(\<lambda>r. (P r \<union> prepared c r) \<union> {d. Prepare r d \<in> set cs})
          = (\<lambda>r. P r \<union> {d. Prepare r d \<in> set (c # cs)})"
    by (cases c) (auto simp add: fun_eq_iff)
  from Cons.IH [OF ptrs_ok_step [OF Cons.prems(1)] payloads_step [OF Cons.prems], of c]
  show ?case by (simp add: eq)
qed

lemma payloads_init: "payloads_from (ConsensusRPCScheme_init dc q) (\<lambda>r. {})"
  by (simp add: payloads_from_def ConsensusRPCScheme_init_def)

text \<open>
  Frame: a call that is no promise and no accept for a request leaves the accepted record
  of that request as it was.
\<close>

lemma accepted_not_aliased:
  "ptrs_ok s \<Longrightarrow> accepted s r = Some a \<Longrightarrow> r' \<noteq> r \<Longrightarrow> proposals s r' \<noteq> Some a"
  unfolding ptrs_ok_def by blast




text \<open>
  The view of a request follows the scheme: an object is reached only through the tables,
  a new proposal is a new object, and two requests never share one.
\<close>

lemma view_of_init: "view_of (ConsensusRPCScheme_init dc q) r view_init"
  by (simp add: view_of_def view_init_def ConsensusRPCScheme_init_def view_accepted_def
        accepted_record_def)

lemma quorum_step: "quorum_size (snd (step s c)) = quorum_size s"
  by (cases c) (auto simp add: prepare_def promise_def accept_def Let_def split: option.splits)

lemma quorum_exec: "quorum_size (exec s cs) = quorum_size s"
  by (induction cs arbitrary: s) (simp_all add: quorum_step)

lemma fresh_proposals:
  "ptrs_ok s \<Longrightarrow> map_option ((heap s)(next_addr s := x)) (proposals s r) = map_option (heap s) (proposals s r)"
  unfolding ptrs_ok_def by (cases "proposals s r") (auto simp add: less_irrefl)

lemma fresh_accepted:
  "ptrs_ok s \<Longrightarrow> map_option ((heap s)(next_addr s := x)) (accepted s r) = map_option (heap s) (accepted s r)"
  unfolding ptrs_ok_def by (cases "accepted s r") (auto simp add: less_irrefl)

lemma other_accepted:
  "ptrs_ok s \<Longrightarrow> proposals s r' = Some a \<Longrightarrow> r' \<noteq> r \<Longrightarrow>
     map_option ((heap s)(a := x)) (accepted s r) = map_option (heap s) (accepted s r)"
  using accepted_not_aliased [of s r _ r'] by (cases "accepted s r") auto

lemma map_option_upd_other:
  "m \<noteq> Some a \<Longrightarrow> map_option (h(a := x)) m = map_option h m"
  by (cases m) auto

lemma other_proposals:
  "ptrs_ok s \<Longrightarrow> proposals s r' = Some a \<Longrightarrow> r' \<noteq> r \<Longrightarrow>
     map_option ((heap s)(a := x)) (proposals s r) = map_option (heap s) (proposals s r)"
  unfolding ptrs_ok_def by (cases "proposals s r") auto

lemma view_of_step:
  assumes "ptrs_ok s" "view_of s r v"
  shows "view_of (snd (step s c)) r (view_step (quorum_size s) r v c)"
proof (cases c)
  case (Prepare r' d)
  have "accepted s r \<noteq> Some (next_addr s)" "proposals s r \<noteq> Some (next_addr s)"
    using assms(1) unfolding ptrs_ok_def by (auto simp add: less_irrefl)
  with assms show ?thesis unfolding Prepare view_of_def
    by (auto simp add: prepare_def Let_def view_accepted_def accepted_record_def
          fresh_proposals fresh_accepted split: if_splits)
next
  case (Promise r' n l)
  show ?thesis
  proof (cases "r' = r")
    case True
    with assms show ?thesis unfolding Promise view_of_def
      by (auto simp add: promise_def Let_def view_accepted_def accepted_record_def
            map_option_upd_other split: option.splits if_splits)
  next
    case False
    with assms show ?thesis unfolding Promise view_of_def
      by (auto simp add: promise_def Let_def view_accepted_def accepted_record_def
            other_accepted other_proposals split: option.splits if_splits)
  qed
next
  case (Accept r')
  show ?thesis
  proof (cases "r' = r")
    case True
    with assms show ?thesis unfolding Accept view_of_def
      by (auto simp add: accept_def Let_def view_accepted_def accepted_record_def
            map_option_upd_other split: option.splits if_splits)
  next
    case False
    with assms show ?thesis unfolding Accept view_of_def
      by (auto simp add: accept_def Let_def view_accepted_def accepted_record_def
            other_accepted other_proposals split: option.splits if_splits)
  qed
qed

lemma view_of_exec:
  assumes "ptrs_ok s" "view_of s r v"
  shows "view_of (exec s cs) r (foldl (view_step (quorum_size s) r) v cs)"
  using assms
proof (induction cs arbitrary: s v)
  case Nil
  then show ?case by simp
next
  case (Cons c cs)
  from Cons.IH [OF ptrs_ok_step [OF Cons.prems(1)] view_of_step [OF Cons.prems], of c]
  show ?case by (simp add: quorum_step)
qed


lemma view_bounds_step:
  assumes "\<forall>p. v_proposal v = Some p \<longrightarrow> accepts p \<le> promises p \<and> (v_shared v \<longrightarrow> q \<le> accepts p)"
    and "\<forall>p. v_detached v = Some p \<longrightarrow> q \<le> accepts p \<and> accepts p \<le> promises p"
    and "v_shared v \<longrightarrow> v_proposal v \<noteq> None"
  shows "(\<forall>p. v_proposal (view_step q r v c) = Some p \<longrightarrow>
            accepts p \<le> promises p \<and> (v_shared (view_step q r v c) \<longrightarrow> q \<le> accepts p))
       \<and> (\<forall>p. v_detached (view_step q r v c) = Some p \<longrightarrow> q \<le> accepts p \<and> accepts p \<le> promises p)
       \<and> (v_shared (view_step q r v c) \<longrightarrow> v_proposal (view_step q r v c) \<noteq> None)"
  using assms by (cases c) (auto split: option.splits if_splits)

lemma view_bounds_fold:
  assumes "\<forall>p. v_proposal v = Some p \<longrightarrow> accepts p \<le> promises p \<and> (v_shared v \<longrightarrow> q \<le> accepts p)"
    and "\<forall>p. v_detached v = Some p \<longrightarrow> q \<le> accepts p \<and> accepts p \<le> promises p"
    and "v_shared v \<longrightarrow> v_proposal v \<noteq> None"
  shows "\<forall>p. view_accepted (foldl (view_step q r) v cs) = Some p \<longrightarrow> q \<le> accepts p \<and> accepts p \<le> promises p"
  using assms
proof (induction cs arbitrary: v)
  case Nil
  then show ?case by (auto simp add: view_accepted_def split: if_splits)
next
  case (Cons c cs)
  from view_bounds_step [OF Cons.prems, of r c]
  have "\<forall>p. view_accepted (foldl (view_step q r) (view_step q r v c) cs) = Some p \<longrightarrow>
          q \<le> accepts p \<and> accepts p \<le> promises p"
    by (intro Cons.IH) blast+
  then show ?case by simp
qed

text \<open>
  Claim C2, as the code has it. After any history of calls on a new scheme,
  \<^verbatim>\<open>learn(request_id)\<close> returns \<^verbatim>\<open>None\<close> exactly when no \<^verbatim>\<open>accept(request_id)\<close> of
  the history succeeded. When one did, it returns the accepted proposal itself, the dict
  with the keys timestamp, data, promises and accepts, and not the payload alone. Its four
  entries are the ones \<open>history_view\<close> computes from the calls: timestamp and data are
  those of the \<^verbatim>\<open>prepare(request_id, data)\<close> whose proposal the last successful
  \<^verbatim>\<open>accept(request_id)\<close> recorded, promises counts the promises granted to that proposal
  until now or until the request was prepared again, and accepts is the promise count
  that proposal had at its last successful accept. So the data entry is a payload some
  \<^verbatim>\<open>prepare\<close> of the history gave for this request, and the accept count is at least
  the quorum size and at most the promise count.
\<close>

theorem learn_returns_accepted_record:
  "learn (exec (ConsensusRPCScheme_init dc q) cs) r =
     (case view_accepted (history_view q cs r) of
        None \<Rightarrow> PNone
      | Some p \<Rightarrow>
          PDict [(''timestamp'', PInt (timestamp p)), (''data'', data p),
                 (''promises'', PInt (promises p)), (''accepts'', PInt (accepts p))])
   \<and> (view_accepted (history_view q cs r) = None
        \<longleftrightarrow> \<not> accept_succeeded (ConsensusRPCScheme_init dc q) cs r)
   \<and> (\<forall>p. view_accepted (history_view q cs r) = Some p \<longrightarrow>
        Prepare r (data p) \<in> set cs \<and> q \<le> accepts p \<and> accepts p \<le> promises p)"
proof -
  let ?i = "ConsensusRPCScheme_init dc q"
  have q: "quorum_size ?i = q"
    by (simp add: ConsensusRPCScheme_init_def)
  have v: "view_of (exec ?i cs) r (history_view q cs r)"
    using view_of_exec [OF ptrs_ok_init [of dc q] view_of_init [of dc q r], of cs]
    by (simp add: history_view_def q)
  then have rec: "view_accepted (history_view q cs r) = accepted_record (exec ?i cs) r"
    by (simp add: view_of_def)
  have acc: "accepted (exec ?i cs) r \<noteq> None \<longleftrightarrow> accept_succeeded ?i cs r"
    using accepted_exec [of ?i cs r] by (simp add: ConsensusRPCScheme_init_def)
  have pay: "payloads_from (exec ?i cs) (\<lambda>r. {d. Prepare r d \<in> set cs})"
    using payloads_exec [OF ptrs_ok_init payloads_init, of dc q cs] by simp
  have bounds: "\<forall>p. view_accepted (history_view q cs r) = Some p \<longrightarrow>
      q \<le> accepts p \<and> accepts p \<le> promises p"
    unfolding history_view_def by (rule view_bounds_fold) (simp_all add: view_init_def)
  have one: "learn (exec ?i cs) r =
     (case view_accepted (history_view q cs r) of
        None \<Rightarrow> PNone
      | Some p \<Rightarrow>
          PDict [(''timestamp'', PInt (timestamp p)), (''data'', data p),
                 (''promises'', PInt (promises p)), (''accepts'', PInt (accepts p))])"
    unfolding rec
    by (cases "accepted (exec ?i cs) r")
      (simp_all add: learn_def accepted_record_def proposal_dict_def)
  have two: "view_accepted (history_view q cs r) = None \<longleftrightarrow> \<not> accept_succeeded ?i cs r"
    unfolding rec using acc by (cases "accepted (exec ?i cs) r") (auto simp add: accepted_record_def)
  have three: "\<forall>p. view_accepted (history_view q cs r) = Some p \<longrightarrow> Prepare r (data p) \<in> set cs"
    unfolding rec using pay by (auto simp add: accepted_record_def payloads_from_def)
  from one two three bounds show ?thesis by blast
qed

theorem learn_returns_accepted_record_witness:
  "learn (exec (ConsensusRPCScheme_init ''WebGateway'' 2) sample_calls) ''req_002'' = PNone
   \<and> \<not> accept_succeeded (ConsensusRPCScheme_init ''WebGateway'' 2) sample_calls ''req_002''
   \<and> accept_succeeded (ConsensusRPCScheme_init ''WebGateway'' 2) sample_calls ''req_001''
   \<and> view_accepted (history_view 2 sample_calls ''req_001'') =
       Some \<lparr>timestamp = 1, data = sample_payload, promises = 2, accepts = 2\<rparr>
   \<and> learn (exec (ConsensusRPCScheme_init ''WebGateway'' 2) sample_calls) ''req_001'' =
       PDict [(''timestamp'', PInt 1), (''data'', sample_payload), (''promises'', PInt 2),
              (''accepts'', PInt 2)]
   \<and> learn (exec (ConsensusRPCScheme_init ''WebGateway'' 2)
        (sample_calls @ [Promise ''req_001'' ''node3'' 0, Prepare ''req_001'' PNone,
                         Promise ''req_001'' ''node1'' 0])) ''req_001'' =
       PDict [(''timestamp'', PInt 1), (''data'', sample_payload), (''promises'', PInt 3),
              (''accepts'', PInt 2)]"
proof -
  have a: "view_accepted (history_view 2 sample_calls ''req_001'') =
       Some \<lparr>timestamp = 1, data = sample_payload, promises = 2, accepts = 2\<rparr>"
    by (simp add: history_view_def sample_calls_def view_init_def view_accepted_def)
  have b: "view_accepted (history_view 2 sample_calls ''req_002'') = None"
    by (simp add: history_view_def sample_calls_def view_init_def view_accepted_def)
  have c: "view_accepted (history_view 2
        (sample_calls @ [Promise ''req_001'' ''node3'' 0, Prepare ''req_001'' PNone,
                         Promise ''req_001'' ''node1'' 0]) ''req_001'') =
       Some \<lparr>timestamp = 1, data = sample_payload, promises = 3, accepts = 2\<rparr>"
    by (simp add: history_view_def sample_calls_def view_init_def view_accepted_def)
  show ?thesis
    using learn_returns_accepted_record [of "''WebGateway''" 2 sample_calls "''req_002''"]
      learn_returns_accepted_record [of "''WebGateway''" 2 sample_calls "''req_001''"]
      learn_returns_accepted_record [of "''WebGateway''" 2
        "sample_calls @ [Promise ''req_001'' ''node3'' 0, Prepare ''req_001'' PNone,
                         Promise ''req_001'' ''node1'' 0]" "''req_001''"]
    by (simp add: a b c)
qed

text \<open>
  The claim as the spec words it fails on the calls of \<^verbatim>\<open>run_full_optimization\<close>: the
  request is accepted with the payload \<^verbatim>\<open>{"payload": "test"}\<close>, and \<^verbatim>\<open>learn\<close> returns
  the dict around it, which is another value.
\<close>

theorem learn_payload_counterexample:
  "accept_succeeded (ConsensusRPCScheme_init ''WebGateway'' 2) sample_calls ''req_001''
   \<and> learn (exec (ConsensusRPCScheme_init ''WebGateway'' 2) sample_calls) ''req_001'' =
       PDict [(''timestamp'', PInt 1), (''data'', sample_payload), (''promises'', PInt 2),
              (''accepts'', PInt 2)]
   \<and> learn (exec (ConsensusRPCScheme_init ''WebGateway'' 2) sample_calls) ''req_001''
       \<noteq> sample_payload"
  by (simp add: sample_calls_def sample_payload_def ConsensusRPCScheme_init_def prepare_def
        promise_def accept_def learn_def proposal_dict_def Let_def)










text \<open>
  Claim C4. \<^verbatim>\<open>promise(request_id, node_id, last_timestamp)\<close> returns false, changing
  nothing, when the request has no proposal. Otherwise it returns true exactly when the
  proposal's timestamp is strictly greater than \<^verbatim>\<open>last_timestamp\<close>; it then adds one
  to the proposal's promise count and changes nothing else, and when it returns false
  the state is unchanged. The node identifier plays no part: a second call with the same
  node adds one more, so the count is two higher after two granted calls.
\<close>

theorem promise_behaviour:
  "(proposals s r = None \<longrightarrow> promise s r n l = (False, s))
   \<and> (\<forall>a. proposals s r = Some a \<longrightarrow>
        (fst (promise s r n l) \<longleftrightarrow> timestamp (heap s a) > l)
        \<and> (timestamp (heap s a) > l \<longrightarrow>
             snd (promise s r n l) =
               s\<lparr>heap := (heap s)(a := (heap s a)\<lparr>promises := promises (heap s a) + 1\<rparr>)\<rparr>)
        \<and> (\<not> timestamp (heap s a) > l \<longrightarrow> promise s r n l = (False, s))
        \<and> (timestamp (heap s a) > l \<longrightarrow>
             fst (promise (snd (promise s r n l)) r n l)
             \<and> promises (heap (snd (promise (snd (promise s r n l)) r n l)) a) =
                 promises (heap s a) + 2))
   \<and> promise s r n l = promise s r n' l"
  by (auto simp add: promise_def Let_def)

theorem promise_behaviour_witness:
  "proposals (ConsensusRPCScheme_init ''WebGateway'' 2) ''req_001'' = None
   \<and> promise (ConsensusRPCScheme_init ''WebGateway'' 2) ''req_001'' ''node1'' 0 =
       (False, ConsensusRPCScheme_init ''WebGateway'' 2)
   \<and> proposals (exec (ConsensusRPCScheme_init ''WebGateway'' 2) [Prepare ''req_001'' sample_payload])
        ''req_001'' = Some 0
   \<and> timestamp (heap (exec (ConsensusRPCScheme_init ''WebGateway'' 2)
        [Prepare ''req_001'' sample_payload]) 0) > 0
   \<and> promises (heap (exec (ConsensusRPCScheme_init ''WebGateway'' 2)
        [Prepare ''req_001'' sample_payload, Promise ''req_001'' ''node1'' 0,
         Promise ''req_001'' ''node1'' 0]) 0) = 2
   \<and> \<not> timestamp (heap (exec (ConsensusRPCScheme_init ''WebGateway'' 2)
        [Prepare ''req_001'' sample_payload]) 0) > 1
   \<and> \<not> fst (promise (exec (ConsensusRPCScheme_init ''WebGateway'' 2)
        [Prepare ''req_001'' sample_payload]) ''req_001'' ''node1'' 1)"
  using promise_behaviour [of "ConsensusRPCScheme_init ''WebGateway'' 2" "''req_001''" "''node1''" 0]
    promise_behaviour [of "exec (ConsensusRPCScheme_init ''WebGateway'' 2)
        [Prepare ''req_001'' sample_payload]" "''req_001''" "''node1''" 0]
    promise_behaviour [of "exec (ConsensusRPCScheme_init ''WebGateway'' 2)
        [Prepare ''req_001'' sample_payload]" "''req_001''" "''node1''" 1]
  by (simp add: ConsensusRPCScheme_init_def prepare_def promise_def Let_def)

text \<open>
  Claim C5. \<^verbatim>\<open>accept(request_id)\<close> returns false and leaves the state, so also the
  accepted table, as it was when the request has no proposal or the proposal's promise
  count is below the quorum size. When the count is at least the quorum size it returns
  true, sets the accept count to the promise count and enters the proposal in the
  accepted table. With quorum size 2 and a proposal just prepared, accept succeeds after
  two granted promises and fails after one.
\<close>

theorem accept_behaviour:
  "(proposals s r = None \<longrightarrow> accept s r = (False, s))
   \<and> (\<forall>a. proposals s r = Some a \<longrightarrow>
        (promises (heap s a) < quorum_size s \<longrightarrow> accept s r = (False, s))
        \<and> (promises (heap s a) \<ge> quorum_size s \<longrightarrow>
             fst (accept s r)
             \<and> accepted (snd (accept s r)) r = Some a
             \<and> accepted_record (snd (accept s r)) r =
                 Some ((heap s a)\<lparr>accepts := promises (heap s a)\<rparr>)))
   \<and> (quorum_size s = 2 \<longrightarrow>
        (let s0 = snd (prepare s r d);
             p1 = promise s0 r n1 l1;
             p2 = promise (snd p1) r n2 l2
         in (fst p1 \<and> fst p2 \<longrightarrow> fst (accept (snd p2) r))
          \<and> (fst p1 \<longrightarrow> accept (snd p1) r = (False, snd p1))))"
  by (auto simp add: accept_def promise_def prepare_def accepted_record_def Let_def)

theorem accept_behaviour_witness:
  "proposals (ConsensusRPCScheme_init ''WebGateway'' 2) ''req_001'' = None
   \<and> accept (ConsensusRPCScheme_init ''WebGateway'' 2) ''req_001'' =
       (False, ConsensusRPCScheme_init ''WebGateway'' 2)
   \<and> quorum_size (ConsensusRPCScheme_init ''WebGateway'' 2) = 2
   \<and> fst (promise (snd (prepare (ConsensusRPCScheme_init ''WebGateway'' 2) ''req_001'' sample_payload))
        ''req_001'' ''node1'' 0)
   \<and> fst (promise (snd (promise (snd (prepare (ConsensusRPCScheme_init ''WebGateway'' 2) ''req_001''
        sample_payload)) ''req_001'' ''node1'' 0)) ''req_001'' ''node2'' 0)
   \<and> fst (accept (snd (promise (snd (promise (snd (prepare (ConsensusRPCScheme_init ''WebGateway'' 2)
        ''req_001'' sample_payload)) ''req_001'' ''node1'' 0)) ''req_001'' ''node2'' 0)) ''req_001'')
   \<and> \<not> fst (accept (snd (promise (snd (prepare (ConsensusRPCScheme_init ''WebGateway'' 2)
        ''req_001'' sample_payload)) ''req_001'' ''node1'' 0)) ''req_001'')
   \<and> proposals (exec (ConsensusRPCScheme_init ''WebGateway'' 2) (butlast sample_calls)) ''req_001''
        = Some 0
   \<and> promises (heap (exec (ConsensusRPCScheme_init ''WebGateway'' 2) (butlast sample_calls)) 0)
        \<ge> quorum_size (exec (ConsensusRPCScheme_init ''WebGateway'' 2) (butlast sample_calls))
   \<and> accepted_record (exec (ConsensusRPCScheme_init ''WebGateway'' 2) sample_calls) ''req_001'' =
        Some \<lparr>timestamp = 1, data = sample_payload, promises = 2, accepts = 2\<rparr>"
  using accept_behaviour [of "ConsensusRPCScheme_init ''WebGateway'' 2" "''req_001''"
          sample_payload "''node1''" 0 "''node2''" 0]
    accept_behaviour [of "exec (ConsensusRPCScheme_init ''WebGateway'' 2) (butlast sample_calls)"
          "''req_001''" sample_payload "''node1''" 0 "''node2''" 0]
  by (simp add: ConsensusRPCScheme_init_def prepare_def promise_def accept_def sample_calls_def
        accepted_record_def Let_def)

subsection \<open>LatencyElasticityOptimizer and ThroughputOptimizer\<close>












lemma to_component_init [simp]: "to_component (ThroughputOptimizer_init cmpt rs dl) = cmpt"
  by (simp add: ThroughputOptimizer_init_def)


















subsection \<open>DominantLatencyAnalyzer\<close>



























lemma ratio_less_total: "\<not> ratio_less a b \<Longrightarrow> a \<noteq> b \<Longrightarrow> ratio_less b a"
  by (cases a; cases b) simp_all



















end
